theory Spec2Isabelle
  imports Main "HOL-Library.Sublist"
begin

section \<open>Python string primitives\<close>

text \<open>
  The commit-message generator works on Python \<open>str\<close> values. They are modelled as
  \<open>string\<close>, a character being a code point below 256 (the ASCII characters and the
  Latin-1 supplement). On these code points \<open>str.lower\<close> works character by character:
  it maps \<open>A\<close> to \<open>Z\<close> and the code points \<open>0xC0\<close> to \<open>0xDE\<close> other than \<open>0xD7\<close>
  to the code point 32 above, and leaves every other character unchanged.
\<close>

definition newline :: char where
  "newline = CHR 0x0A"

definition lower_char :: "char \<Rightarrow> char" where
  "lower_char c =
     (let n = (of_char c :: nat)
      in if (65 \<le> n \<and> n \<le> 90) \<or> (192 \<le> n \<and> n \<le> 222 \<and> n \<noteq> 215)
         then char_of (n + 32) else c)"

definition lower :: "string \<Rightarrow> string" where
  "lower s = map lower_char s"

text \<open>\<open>s.startswith(p)\<close>.\<close>

definition startswith :: "string \<Rightarrow> string \<Rightarrow> bool" where
  "startswith s p = (take (length p) s = p)"

text \<open>\<open>needle in hay\<close> on strings: \<open>needle\<close> occurs as a substring of \<open>hay\<close>.\<close>

fun py_in :: "string \<Rightarrow> string \<Rightarrow> bool" where
  "py_in needle [] = (needle = [])"
| "py_in needle (c # cs) = (startswith (c # cs) needle \<or> py_in needle cs)"

text \<open>\<open>s.split(sep)\<close> for a one-character separator: never the empty list.\<close>

fun py_split :: "char \<Rightarrow> string \<Rightarrow> string list" where
  "py_split sep [] = [[]]"
| "py_split sep (c # cs) =
     (if c = sep then [] # py_split sep cs
      else (case py_split sep cs of [] \<Rightarrow> [[c]] | l # ls \<Rightarrow> (c # l) # ls))"

text \<open>\<open>s.rfind(c)\<close>: the index of the last occurrence of \<open>c\<close>, or \<open>-1\<close>.\<close>

fun py_rfind :: "char \<Rightarrow> string \<Rightarrow> int" where
  "py_rfind c [] = - 1"
| "py_rfind c (x # xs) =
     (let r = py_rfind c xs in if 0 \<le> r then r + 1 else if x = c then 0 else - 1)"

section \<open>The parts of \<open>pathlib.Path\<close> that the generator uses\<close>

text \<open>
  \<open>Path(p)\<close> on a POSIX system: the root is \<open>/\<close>, or \<open>//\<close> for exactly two leading
  slashes; the remainder is split at \<open>/\<close>, and empty components and \<open>.\<close> are dropped.
  \<open>parts\<close> is the root (when there is one) followed by the components, \<open>name\<close> is the
  last component, and \<open>suffix\<close> is \<open>name[i:]\<close> for \<open>i = name.rfind('.')\<close> when
  \<open>0 < i < len(name) - 1\<close>, and the empty string otherwise (the rule of Python 3.4 to
  3.13). Constructing a path and reading these properties raises on no string.
\<close>

definition splitroot :: "string \<Rightarrow> string \<times> string" where
  "splitroot p =
     (if take 1 p \<noteq> ''/'' then ([], p)
      else if take 1 (drop 1 p) \<noteq> ''/'' \<or> take 1 (drop 2 p) = ''/'' then (''/'', drop 1 p)
      else (''//'', drop 2 p))"

definition path_tail :: "string \<Rightarrow> string list" where
  "path_tail p = filter (\<lambda>x. x \<noteq> [] \<and> x \<noteq> ''.'') (py_split CHR ''/'' (snd (splitroot p)))"

definition path_parts :: "string \<Rightarrow> string list" where
  "path_parts p =
     (let root = fst (splitroot p) in if root \<noteq> [] then root # path_tail p else path_tail p)"

definition path_name :: "string \<Rightarrow> string" where
  "path_name p = (case path_tail p of [] \<Rightarrow> [] | t # ts \<Rightarrow> last (t # ts))"

definition path_suffix :: "string \<Rightarrow> string" where
  "path_suffix p =
     (let name = path_name p; i = py_rfind CHR ''.'' name
      in if 0 < i \<and> i < int (length name) - 1 then drop (nat i) name else [])"

section \<open>The file-pair header pattern\<close>

text \<open>
  \<open>re.search(r'diff --git a/(.+) b/(.+)', line)\<close>. A line holds no newline, so \<open>.\<close>
  matches each of its characters. \<open>greedy_groups\<close> is the match of \<open>(.+) b/(.+)\<close> at a
  fixed start: the first group is tried longest first, so the last admissible
  occurrence of \<open>'' b/''\<close> separates the groups, and the second group runs to the end
  of the line. \<open>re_search_header\<close> tries the start positions from left to right.
\<close>

fun greedy_groups :: "string \<Rightarrow> string \<Rightarrow> (string \<times> string) option" where
  "greedy_groups g [] = None"
| "greedy_groups g (c # cs) =
     (case greedy_groups (g @ [c]) cs of
        Some r \<Rightarrow> Some r
      | None \<Rightarrow>
          if g \<noteq> [] \<and> startswith (c # cs) '' b/'' \<and> drop 3 (c # cs) \<noteq> []
          then Some (g, drop 3 (c # cs)) else None)"

definition match_header_at :: "string \<Rightarrow> (string \<times> string) option" where
  "match_header_at s =
     (if startswith s ''diff --git a/'' then greedy_groups [] (drop 13 s) else None)"

fun re_search_header :: "string \<Rightarrow> (string \<times> string) option" where
  "re_search_header [] = None"
| "re_search_header (c # cs) =
     (case match_header_at (c # cs) of Some r \<Rightarrow> Some r | None \<Rightarrow> re_search_header cs)"

section \<open>analyze_changes\<close>

text \<open>
  The dictionary \<open>analysis\<close> has a fixed set of keys and is a record. The counters
  start at 0 and are only incremented, so they are natural numbers.
\<close>

record analysis =
  has_new_files :: bool
  has_deleted_files :: bool
  has_modified_files :: bool
  has_renamed_files :: bool
  modified_extensions :: "string set"
  affected_paths :: "string set"
  lines_added :: nat
  lines_deleted :: nat
  test_files :: nat
  config_files :: nat
  doc_files :: nat

definition initial_analysis :: analysis where
  "initial_analysis =
     \<lparr>has_new_files = False, has_deleted_files = False, has_modified_files = False,
      has_renamed_files = False, modified_extensions = {}, affected_paths = {},
      lines_added = 0, lines_deleted = 0, test_files = 0, config_files = 0, doc_files = 0\<rparr>"

text \<open>\<open>any(w in s for w in words)\<close>.\<close>

definition any_in :: "string list \<Rightarrow> string \<Rightarrow> bool" where
  "any_in words s = list_ex (\<lambda>w. py_in w s) words"

text \<open>The body of the branch taken when the header pattern matches (lines 60 to 75).\<close>

definition record_file :: "string \<Rightarrow> analysis \<Rightarrow> analysis" where
  "record_file new_path a =
     (let a1 = a\<lparr>affected_paths := insert new_path (affected_paths a)\<rparr>;
          ext = lower (path_suffix new_path);
          a2 = (if ext \<noteq> [] then a1\<lparr>modified_extensions := insert ext (modified_extensions a1)\<rparr>
                else a1)
      in if any_in [''test'', ''spec'', ''__tests__''] (lower new_path)
         then a2\<lparr>test_files := test_files a2 + 1\<rparr>
         else if any_in [''config'', ''package.json'', ''requirements.txt'', ''.env'']
                   (lower new_path)
         then a2\<lparr>config_files := config_files a2 + 1\<rparr>
         else if any_in [''readme'', ''docs'', ''.md'', ''.txt''] (lower new_path)
         then a2\<lparr>doc_files := doc_files a2 + 1\<rparr>
         else a2)"

text \<open>One turn of the \<open>while\<close> loop: the \<open>if\<close>/\<open>elif\<close> chain on one line.\<close>

definition process_line :: "string \<Rightarrow> analysis \<Rightarrow> analysis" where
  "process_line line a =
     (if startswith line ''diff --git'' then
        (case re_search_header line of
           Some (old_path, new_path) \<Rightarrow> record_file new_path a
         | None \<Rightarrow> a)
      else if startswith line ''new file mode'' then a\<lparr>has_new_files := True\<rparr>
      else if startswith line ''deleted file mode'' then a\<lparr>has_deleted_files := True\<rparr>
      else if startswith line ''rename'' then a\<lparr>has_renamed_files := True\<rparr>
      else if startswith line ''+'' \<and> \<not> startswith line ''+++''
        then a\<lparr>lines_added := lines_added a + 1\<rparr>
      else if startswith line ''-'' \<and> \<not> startswith line ''---''
        then a\<lparr>lines_deleted := lines_deleted a + 1\<rparr>
      else a)"

text \<open>The loop over the lines, from first to last, on the running analysis.\<close>

fun scan_lines :: "string list \<Rightarrow> analysis \<Rightarrow> analysis" where
  "scan_lines [] a = a"
| "scan_lines (line # rest) a = scan_lines rest (process_line line a)"

definition analyze_changes :: "string \<Rightarrow> analysis" where
  "analyze_changes diff = scan_lines (py_split newline diff) initial_analysis"

section \<open>determine_commit_type\<close>

text \<open>
  The ordered cascade of lines 97 to 112. \<open>len\<close> of a set is \<open>card\<close>; the \<open>any\<close> over
  the set of extensions is a bounded existential.
\<close>

definition determine_commit_type :: "analysis \<Rightarrow> string" where
  "determine_commit_type a =
     (if 0 < test_files a \<and> test_files a = card (affected_paths a) then ''test''
      else if 0 < doc_files a \<and> doc_files a = card (affected_paths a) then ''docs''
      else if 0 < config_files a \<and>
              (\<exists>ext \<in> modified_extensions a.
                 ext \<in> set [''.json'', ''.yml'', ''.yaml'', ''.toml'', ''.ini''])
        then ''chore''
      else if has_new_files a \<and> \<not> has_modified_files a \<and> \<not> has_deleted_files a then ''feat''
      else if has_deleted_files a \<and> \<not> has_new_files a \<and> \<not> has_modified_files a then ''chore''
      else if lines_deleted a * 2 < lines_added a then ''feat''
      else if lines_added a * 2 < lines_deleted a then ''refactor''
      else ''fix'')"

section \<open>determine_scope\<close>

datatype py_error = ValueError | IndexError

text \<open>
  Python iterates over a set in an order fixed by the hashes of its elements, which the
  program does not control. The model takes that order as an argument: a list that holds
  each element of the set once.
\<close>

definition iteration_order :: "'a set \<Rightarrow> 'a list \<Rightarrow> bool" where
  "iteration_order S xs = (distinct xs \<and> set xs = S)"

definition reserved_scopes :: "string list" where
  "reserved_scopes = [''src'', ''lib'', ''app'', ''test'', ''tests'', ''docs'']"

text \<open>The \<open>for\<close> loop of lines 121 to 127 on the list \<open>scopes\<close>.\<close>

fun collect_scopes :: "string list \<Rightarrow> string list \<Rightarrow> string list" where
  "collect_scopes [] scopes = scopes"
| "collect_scopes (path # rest) scopes =
     (case path_parts path of
        first # _ # _ \<Rightarrow>
          (let scope = lower first
           in if scope \<notin> set reserved_scopes then collect_scopes rest (scopes @ [scope])
              else collect_scopes rest scopes)
      | _ \<Rightarrow> collect_scopes rest scopes)"

text \<open>
  \<open>max(xs, key=k)\<close>: the first element, in the order of iteration, whose key no other
  element exceeds; \<open>ValueError\<close> on an empty iterable.
\<close>

fun max_from :: "('a \<Rightarrow> nat) \<Rightarrow> 'a \<Rightarrow> 'a list \<Rightarrow> 'a" where
  "max_from key best [] = best"
| "max_from key best (x # xs) = max_from key (if key best < key x then x else best) xs"

definition py_max :: "('a \<Rightarrow> nat) \<Rightarrow> 'a list \<Rightarrow> py_error + 'a" where
  "py_max key xs = (case xs of [] \<Rightarrow> Inl ValueError | x # rest \<Rightarrow> Inr (max_from key x rest))"

text \<open>
  \<open>path_order\<close> is the order in which the loop visits \<open>affected_paths\<close>, and
  \<open>scope_order\<close> the order in which \<open>max\<close> visits \<open>set(scopes)\<close>.
\<close>

definition determine_scope :: "analysis \<Rightarrow> string list \<Rightarrow> string list \<Rightarrow> py_error + string" where
  "determine_scope a path_order scope_order =
     (if affected_paths a = {} then Inr []
      else
        (let scopes = collect_scopes path_order []
         in if scopes \<noteq> [] then
              (if length scopes = 1 then
                 (case scopes of [] \<Rightarrow> Inl IndexError | s # _ \<Rightarrow> Inr s)
               else py_max (count_list scopes) scope_order)
            else Inr []))"

section \<open>generate_subject\<close>

definition subject_description :: "string \<Rightarrow> analysis \<Rightarrow> string" where
  "subject_description type_hint a =
     (if type_hint = ''feat'' then
        (if has_new_files a then ''add new functionality'' else ''implement new feature'')
      else if type_hint = ''fix'' then ''fix issue''
      else if type_hint = ''docs'' then ''update documentation''
      else if type_hint = ''test'' then ''add tests''
      else if type_hint = ''refactor'' then ''refactor code''
      else if type_hint = ''style'' then ''update code style''
      else if type_hint = ''chore'' then ''update configuration''
      else ''update code'')"

definition generate_subject :: "string \<Rightarrow> string \<Rightarrow> analysis \<Rightarrow> string" where
  "generate_subject type_hint scope a =
     (let type_str = (if scope \<noteq> [] then type_hint @ ''('' @ scope @ '')'' else type_hint)
      in type_str @ '': '' @ subject_description type_hint a)"

section \<open>The classifier\<close>

text \<open>
  Lines 177 to 181 of \<open>generate_commit_message\<close>: the commit type, the scope and the
  subject of an analysis.
\<close>

definition classify ::
  "analysis \<Rightarrow> string list \<Rightarrow> string list \<Rightarrow> py_error + (string \<times> string \<times> string)" where
  "classify a path_order scope_order =
     (let commit_type = determine_commit_type a
      in case determine_scope a path_order scope_order of
           Inl e \<Rightarrow> Inl e
         | Inr scope \<Rightarrow> Inr (commit_type, scope, generate_subject commit_type scope a))"

section \<open>Notions used in the statements\<close>

text \<open>
  The new path of a line that the scan treats as a file-pair header (it starts with
  \<open>diff --git\<close> and the pattern matches), and the new paths of all such lines of a
  list of lines, in order and with repetitions.
\<close>

definition header_new_path :: "string \<Rightarrow> string option" where
  "header_new_path line =
     (if startswith line ''diff --git'' then map_option snd (re_search_header line) else None)"

definition header_paths :: "string list \<Rightarrow> string list" where
  "header_paths ls = List.map_filter header_new_path ls"

text \<open>The sum of the three bucket counters.\<close>

definition bucket_total :: "analysis \<Rightarrow> nat" where
  "bucket_total a = test_files a + config_files a + doc_files a"

text \<open>
  A line that the scan ignores: neither a matched file-pair header, nor a
  \<open>new file mode\<close>, \<open>deleted file mode\<close> or \<open>rename\<close> header line, nor a changed
  line (\<open>+\<close> but not \<open>+++\<close>, \<open>-\<close> but not \<open>---\<close>).
\<close>

definition ignored_line :: "string \<Rightarrow> bool" where
  "ignored_line line =
     (header_new_path line = None \<and>
      \<not> startswith line ''new file mode'' \<and>
      \<not> startswith line ''deleted file mode'' \<and>
      \<not> startswith line ''rename'' \<and>
      \<not> (startswith line ''+'' \<and> \<not> startswith line ''+++'') \<and>
      \<not> (startswith line ''-'' \<and> \<not> startswith line ''---''))"

text \<open>
  The extension as the specification words it: the text of the last path component
  from its last \<open>.\<close> to the end, including the dot, and empty when the component has
  no dot.
\<close>

definition spec_extension :: "string \<Rightarrow> string" where
  "spec_extension p =
     (let name = path_name p; i = py_rfind CHR ''.'' name
      in if 0 \<le> i then drop (nat i) name else [])"

text \<open>
  The scope candidates as the specification words them: the first path segment of each
  path, lowercased, unless it is a reserved segment.
\<close>

definition spec_scope_candidates :: "string list \<Rightarrow> string list" where
  "spec_scope_candidates ps =
     [lower (takeWhile (\<lambda>c. c \<noteq> CHR ''/'') p). p \<leftarrow> ps,
        lower (takeWhile (\<lambda>c. c \<noteq> CHR ''/'') p) \<notin> set reserved_scopes]"

text \<open>Joining lines with newlines, as the diff text holds them.\<close>

definition join_lines :: "string list \<Rightarrow> string" where
  "join_lines ls = (case ls of [] \<Rightarrow> [] | l # rest \<Rightarrow> l @ concat (map (\<lambda>x. newline # x) rest))"

text \<open>The diff of one new file \<open>docs/guide.md\<close> with 100 added lines.\<close>

definition guide_diff :: string where
  "guide_diff =
     join_lines
       ([''diff --git a/docs/guide.md b/docs/guide.md'',
         ''new file mode 100644'',
         ''index 0000000..3b18e51'',
         ''--- /dev/null'',
         ''+++ b/docs/guide.md'',
         ''@@ -0,0 +1,100 @@''] @ replicate 100 ''+A line of the guide.'')"

text \<open>
  A diff in which one test file changes its type (a regular file becomes a symbolic
  link): the file appears under two file-pair headers, once deleted and once created.
\<close>

definition retyped_test_diff :: string where
  "retyped_test_diff =
     join_lines
       [''diff --git a/tests/fixture b/tests/fixture'',
        ''deleted file mode 100644'',
        ''index 257cc56..0000000'',
        ''--- a/tests/fixture'',
        ''+++ /dev/null'',
        ''@@ -1 +0,0 @@'',
        ''-sample'',
        ''diff --git a/tests/fixture b/tests/fixture'',
        ''new file mode 120000'',
        ''index 0000000..ba0e162'',
        ''--- /dev/null'',
        ''+++ b/tests/fixture'',
        ''@@ -0,0 +1 @@'',
        ''+shared/sample'']"

text \<open>A diff text with the same file-pair header twice.\<close>

definition repeated_header_diff :: string where
  "repeated_header_diff =
     join_lines [''diff --git a/test.py b/test.py'', ''diff --git a/test.py b/test.py'']"

section \<open>Properties of the analysis\<close>

subsection \<open>The flag \<open>has_modified_files\<close>\<close>

lemma process_line_has_modified:
  "has_modified_files (process_line l a) = has_modified_files a"
  by (simp add: process_line_def record_file_def Let_def split: option.splits prod.splits)

lemma scan_lines_has_modified:
  "has_modified_files (scan_lines ls a) = has_modified_files a"
  by (induction ls arbitrary: a) (simp_all add: process_line_has_modified)

text \<open>
  Claim C4. For every diff text, the analysis returned by \<open>analyze_changes\<close> has
  \<open>has_modified_files = False\<close>: no branch of the scan sets the flag.
\<close>

theorem has_modified_files_never_set:
  "has_modified_files (analyze_changes diff) = False"
  by (simp add: analyze_changes_def scan_lines_has_modified initial_analysis_def)

subsection \<open>Lines and the scan\<close>

lemma py_split_no_sep: "sep \<notin> set l \<Longrightarrow> py_split sep l = [l]"
  by (induction l) auto

lemma py_split_append:
  "sep \<notin> set l \<Longrightarrow> py_split sep (l @ sep # rest) = l # py_split sep rest"
  by (induction l) auto

lemma join_lines_Cons: "ls \<noteq> [] \<Longrightarrow> join_lines (l # ls) = l @ newline # join_lines ls"
  by (cases ls) (simp_all add: join_lines_def)

lemma py_split_join:
  assumes "\<forall>l \<in> set ls. newline \<notin> set l" and "ls \<noteq> []"
  shows "py_split newline (join_lines ls) = ls"
  using assms
proof (induction ls)
  case Nil
  then show ?case by simp
next
  case (Cons l ls)
  show ?case
  proof (cases "ls = []")
    case True
    with Cons.prems show ?thesis by (simp add: join_lines_def py_split_no_sep)
  next
    case False
    with Cons have "py_split newline (join_lines ls) = ls" by simp
    with False Cons.prems show ?thesis by (simp add: join_lines_Cons py_split_append)
  qed
qed

lemma scan_lines_append: "scan_lines (xs @ ys) a = scan_lines ys (scan_lines xs a)"
  by (induction xs arbitrary: a) simp_all

lemma process_line_header:
  "header_new_path l = Some p \<Longrightarrow> process_line l a = record_file p a"
  by (auto simp: header_new_path_def process_line_def split: if_splits option.splits)

lemma process_line_no_header:
  assumes "header_new_path l = None"
  shows "affected_paths (process_line l a) = affected_paths a"
    and "modified_extensions (process_line l a) = modified_extensions a"
    and "test_files (process_line l a) = test_files a"
    and "config_files (process_line l a) = config_files a"
    and "doc_files (process_line l a) = doc_files a"
  using assms
  by (auto simp: header_new_path_def process_line_def split: if_splits option.splits)

lemma process_line_ignored: "ignored_line l \<Longrightarrow> process_line l a = a"
  by (auto simp: ignored_line_def header_new_path_def process_line_def
      split: if_splits option.splits)

lemma scan_lines_ignored: "list_all ignored_line ls \<Longrightarrow> scan_lines ls a = a"
  by (induction ls arbitrary: a) (simp_all add: process_line_ignored)

lemma header_paths_Cons:
  "header_paths (l # ls) =
     (case header_new_path l of None \<Rightarrow> header_paths ls | Some p \<Rightarrow> p # header_paths ls)"
  by (simp add: header_paths_def List.map_filter_simps split: option.splits)

subsection \<open>Affected paths and bucket counters\<close>

lemma record_file_affected_paths:
  "affected_paths (record_file p a) = insert p (affected_paths a)"
  by (simp add: record_file_def Let_def)

lemma record_file_bucket_total: "bucket_total (record_file p a) \<le> bucket_total a + 1"
  by (simp add: record_file_def bucket_total_def Let_def)

lemma record_file_test_files:
  "test_files (record_file p a) =
     test_files a + (if any_in [''test'', ''spec'', ''__tests__''] (lower p) then 1 else 0)"
  by (simp add: record_file_def Let_def)

lemma scan_lines_affected_paths:
  "affected_paths (scan_lines ls a) = affected_paths a \<union> set (header_paths ls)"
proof (induction ls arbitrary: a)
  case Nil
  then show ?case by (simp add: header_paths_def List.map_filter_simps)
next
  case (Cons l ls)
  show ?case
  proof (cases "header_new_path l")
    case None
    then show ?thesis by (simp add: Cons.IH header_paths_Cons process_line_no_header)
  next
    case (Some p)
    then show ?thesis
      by (simp add: Cons.IH header_paths_Cons process_line_header record_file_affected_paths)
  qed
qed

lemma scan_lines_bucket_total:
  "bucket_total (scan_lines ls a) \<le> bucket_total a + length (header_paths ls)"
proof (induction ls arbitrary: a)
  case Nil
  then show ?case by simp
next
  case (Cons l ls)
  show ?case
  proof (cases "header_new_path l")
    case None
    then have "bucket_total (process_line l a) = bucket_total a"
      by (simp add: bucket_total_def process_line_no_header)
    with Cons.IH [of "process_line l a"] None show ?thesis
      by (simp add: header_paths_Cons)
  next
    case (Some p)
    have "bucket_total (scan_lines ls (record_file p a))
            \<le> bucket_total (record_file p a) + length (header_paths ls)"
      by (rule Cons.IH)
    also have "\<dots> \<le> bucket_total a + 1 + length (header_paths ls)"
      using record_file_bucket_total [of p a] by simp
    finally show ?thesis using Some by (simp add: header_paths_Cons process_line_header)
  qed
qed

lemma scan_lines_test_files:
  "test_files (scan_lines ls a) =
     test_files a +
     length (filter (\<lambda>p. any_in [''test'', ''spec'', ''__tests__''] (lower p)) (header_paths ls))"
proof (induction ls arbitrary: a)
  case Nil
  then show ?case by (simp add: header_paths_def List.map_filter_simps)
next
  case (Cons l ls)
  show ?case
  proof (cases "header_new_path l")
    case None
    then show ?thesis by (simp add: Cons.IH header_paths_Cons process_line_no_header)
  next
    case (Some p)
    then show ?thesis
      by (simp add: Cons.IH header_paths_Cons process_line_header record_file_test_files)
  qed
qed

text \<open>
  When no new path occurs under two file-pair headers, the bucket counters add up to at
  most the number of affected paths, and a diff whose affected paths all contain
  \<open>test\<close> has type \<open>test\<close>.
\<close>

lemma bucket_total_le_card_if_distinct:
  assumes "distinct (header_paths (py_split newline diff))"
  shows "bucket_total (analyze_changes diff) \<le> card (affected_paths (analyze_changes diff))"
proof -
  let ?hs = "header_paths (py_split newline diff)"
  have "affected_paths (analyze_changes diff) = set ?hs"
    by (simp add: analyze_changes_def scan_lines_affected_paths initial_analysis_def)
  then have "card (affected_paths (analyze_changes diff)) = length ?hs"
    using assms by (simp add: distinct_card)
  moreover have "bucket_total (analyze_changes diff) \<le> length ?hs"
    using scan_lines_bucket_total [of "py_split newline diff" initial_analysis]
    by (simp add: analyze_changes_def bucket_total_def initial_analysis_def)
  ultimately show ?thesis by simp
qed

lemma all_test_paths_if_distinct:
  assumes "distinct (header_paths (py_split newline diff))"
    and "affected_paths (analyze_changes diff) \<noteq> {}"
    and "\<forall>p \<in> affected_paths (analyze_changes diff). py_in ''test'' (lower p)"
  shows "determine_commit_type (analyze_changes diff) = ''test''"
proof -
  let ?hs = "header_paths (py_split newline diff)"
  have paths: "affected_paths (analyze_changes diff) = set ?hs"
    by (simp add: analyze_changes_def scan_lines_affected_paths initial_analysis_def)
  have card: "card (affected_paths (analyze_changes diff)) = length ?hs"
    using assms(1) by (simp add: paths distinct_card)
  have "filter (\<lambda>p. any_in [''test'', ''spec'', ''__tests__''] (lower p)) ?hs = ?hs"
    using assms(3) by (simp add: paths any_in_def filter_id_conv)
  then have "test_files (analyze_changes diff) = length ?hs"
    by (simp add: analyze_changes_def scan_lines_test_files initial_analysis_def)
  moreover have "?hs \<noteq> []" using assms(2) paths by auto
  ultimately show ?thesis by (simp add: determine_commit_type_def card)
qed

subsection \<open>Evaluating the analysis on a concrete diff\<close>

lemmas analysis_eval =
  analyze_changes_def newline_def join_lines_def process_line_def record_file_def
  match_header_at_def startswith_def initial_analysis_def any_in_def lower_def lower_char_def char_of_def bit_Suc_0_iff
  path_suffix_def path_name_def path_tail_def path_parts_def splitroot_def Let_def

lemma analyze_retyped_test_diff:
  "analyze_changes retyped_test_diff =
     \<lparr>has_new_files = True, has_deleted_files = True, has_modified_files = False,
      has_renamed_files = False, modified_extensions = {}, affected_paths = {''tests/fixture''},
      lines_added = 1, lines_deleted = 1, test_files = 2, config_files = 0, doc_files = 0\<rparr>"
  by (simp add: retyped_test_diff_def analysis_eval)

lemma analyze_repeated_header_diff:
  "analyze_changes repeated_header_diff =
     \<lparr>has_new_files = False, has_deleted_files = False, has_modified_files = False,
      has_renamed_files = False, modified_extensions = {''.py''}, affected_paths = {''test.py''},
      lines_added = 0, lines_deleted = 0, test_files = 2, config_files = 0, doc_files = 0\<rparr>"
  by (simp add: repeated_header_diff_def analysis_eval)

text \<open>
  Lowercasing beyond ASCII: \<open>0xC9\<close> (E with acute) is lowered to \<open>0xE9\<close>, while the
  multiplication sign \<open>0xD7\<close> and the sharp s \<open>0xDF\<close> stay; the header of \<open>x.\<close>\<open>0xC9\<close>
  records the extension \<open>.\<close>\<open>0xE9\<close>, and the scope of \<open>0xC9\<close>\<open>cole/x.py\<close> is
  \<open>0xE9\<close>\<open>cole\<close>.
\<close>

lemma lower_latin1:
  "lower [CHR 0xC9, CHR ''c'', CHR ''O'', CHR 0xD7, CHR 0xDF, CHR 0xDE]
     = [CHR 0xE9, CHR ''c'', CHR ''o'', CHR 0xD7, CHR 0xDF, CHR 0xFE]"
  by (simp add: lower_def lower_char_def char_of_def bit_Suc_0_iff)

lemma extension_latin1:
  "modified_extensions
     (analyze_changes (''diff --git a/x.'' @ [CHR 0xC9] @ '' b/x.'' @ [CHR 0xC9]))
     = {[CHR ''.'', CHR 0xE9]}"
  by (simp add: analysis_eval)

lemma scope_latin1:
  "determine_scope
     (analyze_changes (''diff --git a/'' @ CHR 0xC9 # ''cole/x.py b/'' @ CHR 0xC9 # ''cole/x.py''))
     [CHR 0xC9 # ''cole/x.py''] [CHR 0xE9 # ''cole'']
     = Inr (CHR 0xE9 # ''cole'')"
  by (simp add: analysis_eval determine_scope_def reserved_scopes_def py_max_def)

text \<open>
  Claim C1 (the bucket counters add up to at most the number of affected paths, also
  when a path occurs under more than one file-pair header). The scan increments a
  bucket counter for every matched header line, while \<open>affected_paths\<close> holds each
  path once. On \<open>retyped_test_diff\<close>, where \<open>tests/fixture\<close> occurs under two headers,
  the counters add up to 2 and one path is affected.
\<close>

theorem bucket_total_exceeds_affected_paths:
  "affected_paths (analyze_changes retyped_test_diff) = {''tests/fixture''} \<and>
   test_files (analyze_changes retyped_test_diff) = 2 \<and>
   config_files (analyze_changes retyped_test_diff) = 0 \<and>
   doc_files (analyze_changes retyped_test_diff) = 0 \<and>
   \<not> (test_files (analyze_changes retyped_test_diff)
        + config_files (analyze_changes retyped_test_diff)
        + doc_files (analyze_changes retyped_test_diff)
        \<le> card (affected_paths (analyze_changes retyped_test_diff)))"
  by (simp add: analyze_retyped_test_diff)

text \<open>
  Claim C2 (a diff with at least one affected path, all of whose affected paths
  contain \<open>test\<close>, has type \<open>test\<close>). On \<open>repeated_header_diff\<close> the one affected
  path is \<open>test.py\<close>, the counter \<open>test_files\<close> is 2, the first rule of the cascade
  compares it with the one affected path, and the type is \<open>fix\<close>. The same happens on
  \<open>retyped_test_diff\<close>, whose one affected path is \<open>tests/fixture\<close>.
\<close>

theorem all_test_paths_typed_fix:
  "affected_paths (analyze_changes repeated_header_diff) = {''test.py''} \<and>
   py_in ''test'' (lower ''test.py'') \<and>
   test_files (analyze_changes repeated_header_diff) = 2 \<and>
   determine_commit_type (analyze_changes repeated_header_diff) = ''fix'' \<and>
   classify (analyze_changes repeated_header_diff) [''test.py''] []
     = Inr (''fix'', [], ''fix: fix issue'') \<and>
   affected_paths (analyze_changes retyped_test_diff) = {''tests/fixture''} \<and>
   py_in ''test'' (lower ''tests/fixture'') \<and>
   determine_commit_type (analyze_changes retyped_test_diff) = ''fix''"
  by (simp add: analyze_repeated_header_diff analyze_retyped_test_diff
      determine_commit_type_def classify_def
      determine_scope_def generate_subject_def subject_description_def reserved_scopes_def
      path_parts_def path_tail_def splitroot_def startswith_def lower_def lower_char_def char_of_def bit_Suc_0_iff)

subsection \<open>The type cascade\<close>

lemma determine_commit_type_cases:
  "determine_commit_type a \<in> {''test'', ''docs'', ''chore'', ''feat'', ''refactor'', ''fix''}"
  by (simp add: determine_commit_type_def)

subsection \<open>The scope\<close>

lemma max_from_mem: "max_from key best xs \<in> set (best # xs)"
  by (induction xs arbitrary: best) (auto split: if_splits)

lemma max_from_best: "key best \<le> key (max_from key best xs)"
proof (induction xs arbitrary: best)
  case Nil
  then show ?case by simp
next
  case (Cons x xs)
  have "key best \<le> key (if key best < key x then x else best)" by simp
  also have "\<dots> \<le> key (max_from key (if key best < key x then x else best) xs)"
    by (rule Cons.IH)
  finally show ?case by simp
qed

lemma max_from_greatest: "y \<in> set (best # xs) \<Longrightarrow> key y \<le> key (max_from key best xs)"
proof (induction xs arbitrary: best)
  case Nil
  then show ?case by simp
next
  case (Cons x xs)
  let ?b = "if key best < key x then x else best"
  from Cons.prems consider "y = best" | "y = x" | "y \<in> set xs" by auto
  then show ?case
  proof cases
    case 1
    have "key best \<le> key ?b" by simp
    also have "\<dots> \<le> key (max_from key ?b xs)" by (rule max_from_best)
    finally show ?thesis using 1 by simp
  next
    case 2
    have "key x \<le> key ?b" by simp
    also have "\<dots> \<le> key (max_from key ?b xs)" by (rule max_from_best)
    finally show ?thesis using 2 by simp
  next
    case 3
    then have "key y \<le> key (max_from key ?b xs)" by (intro Cons.IH) simp
    then show ?thesis by simp
  qed
qed

lemma py_max_greatest:
  assumes "xs \<noteq> []"
  shows "\<exists>m. py_max key xs = Inr m \<and> m \<in> set xs \<and> (\<forall>y \<in> set xs. key y \<le> key m)"
proof -
  from assms obtain x rest where xs: "xs = x # rest" by (cases xs) auto
  have "max_from key x rest \<in> set xs" unfolding xs by (rule max_from_mem)
  moreover have "\<forall>y \<in> set xs. key y \<le> key (max_from key x rest)"
    unfolding xs by (intro ballI max_from_greatest)
  ultimately show ?thesis by (simp add: py_max_def xs)
qed

lemma collect_scopes_eq:
  "collect_scopes ps scopes =
     scopes @ [lower (hd (path_parts p)). p \<leftarrow> ps, 1 < length (path_parts p),
                 lower (hd (path_parts p)) \<notin> set reserved_scopes]"
proof (induction ps arbitrary: scopes)
  case Nil
  then show ?case by simp
next
  case (Cons p ps)
  show ?case
  proof (cases "path_parts p")
    case Nil
    then show ?thesis by (simp add: Cons.IH)
  next
    case parts: (Cons first more)
    then show ?thesis by (cases more) (simp_all add: Cons.IH Let_def)
  qed
qed

lemma determine_scope_total:
  assumes "iteration_order (set (collect_scopes ps [])) cs"
  shows "\<exists>s. determine_scope a ps cs = Inr s"
proof (cases "collect_scopes ps []")
  case Nil
  then show ?thesis by (simp add: determine_scope_def)
next
  case (Cons s rest)
  with assms have "cs \<noteq> []" by (auto simp: iteration_order_def)
  then obtain m where "py_max (count_list (collect_scopes ps [])) cs = Inr m"
    using py_max_greatest by blast
  then show ?thesis by (simp add: determine_scope_def Let_def Cons)
qed

lemma determine_scope_no_paths: "affected_paths a = {} \<Longrightarrow> determine_scope a ps cs = Inr []"
  by (simp add: determine_scope_def)

lemma single_segment_parts:
  assumes "CHR ''/'' \<notin> set p"
  shows "length (path_parts p) \<le> 1"
proof -
  from assms have "take 1 p \<noteq> ''/''" by (cases p) auto
  then have "splitroot p = ([], p)" by (simp add: splitroot_def)
  with assms show ?thesis by (simp add: path_parts_def path_tail_def py_split_no_sep)
qed

lemma collect_scopes_single_segments:
  assumes "\<forall>p \<in> set ps. CHR ''/'' \<notin> set p"
  shows "collect_scopes ps [] = []"
proof -
  have "\<forall>p \<in> set ps. \<not> 1 < length (path_parts p)"
    using assms single_segment_parts by (auto simp: not_less)
  then show ?thesis by (simp add: collect_scopes_eq filter_empty_conv)
qed

text \<open>
  Claim C5, as stated: every diff text with zero changed lines and zero file headers
  has the initial analysis and the type \<open>fix\<close>. The one-line diff text
  \<open>new file mode 100644\<close> has no file-pair header and no changed line; the scan sets
  \<open>has_new_files\<close> on it, and the classifier returns the type \<open>feat\<close>.
\<close>

theorem status_line_without_header:
  "\<not> startswith ''new file mode 100644'' ''diff --git'' \<and>
   header_paths (py_split newline ''new file mode 100644'') = [] \<and>
   affected_paths (analyze_changes ''new file mode 100644'') = {} \<and>
   lines_added (analyze_changes ''new file mode 100644'') = 0 \<and>
   lines_deleted (analyze_changes ''new file mode 100644'') = 0 \<and>
   has_new_files (analyze_changes ''new file mode 100644'') \<and>
   determine_commit_type (analyze_changes ''new file mode 100644'') = ''feat'' \<and>
   classify (analyze_changes ''new file mode 100644'') [] []
     = Inr (''feat'', [], ''feat: add new functionality'')"
  by (simp add: analysis_eval header_paths_def header_new_path_def List.map_filter_simps
      determine_commit_type_def classify_def determine_scope_def generate_subject_def
      subject_description_def)

text \<open>
  Claim C5, amended. The analysis followed by the classifier returns a result on every
  diff text, whatever the orders of iteration, and never raises. On the empty diff text,
  and on every diff text all of whose lines are ignored by the scan (no matched
  file-pair header, no \<open>new file mode\<close>, \<open>deleted file mode\<close> or \<open>rename\<close> line, and
  no changed line), the analysis is the initial one (counters zero, sets empty, flags
  false) and the classifier returns type \<open>fix\<close> and the empty scope.
\<close>

theorem analyze_classify_total:
  assumes "iteration_order (affected_paths (analyze_changes diff)) ps"
    and "iteration_order (set (collect_scopes ps [])) cs"
  shows "(\<exists>t s subj. classify (analyze_changes diff) ps cs = Inr (t, s, subj)) \<and>
         analyze_changes [] =
           \<lparr>has_new_files = False, has_deleted_files = False, has_modified_files = False,
            has_renamed_files = False, modified_extensions = {}, affected_paths = {},
            lines_added = 0, lines_deleted = 0, test_files = 0, config_files = 0,
            doc_files = 0\<rparr> \<and>
         classify (analyze_changes []) ps cs = Inr (''fix'', [], ''fix: fix issue'') \<and>
         (list_all ignored_line (py_split newline diff) \<longrightarrow>
            analyze_changes diff = analyze_changes [] \<and>
            classify (analyze_changes diff) ps cs = Inr (''fix'', [], ''fix: fix issue''))"
proof -
  obtain s where "determine_scope (analyze_changes diff) ps cs = Inr s"
    using determine_scope_total [OF assms(2)] by blast
  then have total: "\<exists>t s subj. classify (analyze_changes diff) ps cs = Inr (t, s, subj)"
    by (simp add: classify_def Let_def)
  have empty: "analyze_changes [] = initial_analysis"
    by (simp add: analyze_changes_def process_line_def startswith_def)
  have default: "classify initial_analysis ps cs = Inr (''fix'', [], ''fix: fix issue'')"
    by (simp add: classify_def determine_scope_def determine_commit_type_def
        generate_subject_def subject_description_def initial_analysis_def)
  have quiet: "analyze_changes diff = initial_analysis"
    if "list_all ignored_line (py_split newline diff)"
    using that by (simp add: analyze_changes_def scan_lines_ignored)
  show ?thesis
    using total default quiet by (auto simp: empty) (simp add: initial_analysis_def)
qed

theorem analyze_classify_total_witness:
  "(\<exists>t s subj.
      classify (analyze_changes (join_lines [''index 83db48f..bf2a1c5 100644'', '' unchanged'']))
        [] [] = Inr (t, s, subj)) \<and>
   list_all ignored_line [''index 83db48f..bf2a1c5 100644'', '' unchanged''] \<and>
   affected_paths (analyze_changes (join_lines [''index 83db48f..bf2a1c5 100644'', '' unchanged'']))
     = {} \<and>
   lines_added (analyze_changes (join_lines [''index 83db48f..bf2a1c5 100644'', '' unchanged'']))
     = 0 \<and>
   classify (analyze_changes (join_lines [''index 83db48f..bf2a1c5 100644'', '' unchanged'']))
     [] [] = Inr (''fix'', [], ''fix: fix issue'')"
proof -
  let ?ls = "[''index 83db48f..bf2a1c5 100644'', '' unchanged'']"
  let ?a = "analyze_changes (join_lines ?ls)"
  have split: "py_split newline (join_lines ?ls) = ?ls"
    by (rule py_split_join) (simp_all add: newline_def)
  have quiet: "list_all ignored_line ?ls"
    by (simp add: ignored_line_def header_new_path_def startswith_def)
  then have init: "?a = initial_analysis"
    by (simp only: analyze_changes_def split scan_lines_ignored)
  then have paths: "iteration_order (affected_paths ?a) []"
    by (simp add: iteration_order_def initial_analysis_def)
  have scopes: "iteration_order (set (collect_scopes [] [])) []"
    by (simp add: iteration_order_def)
  have quiet': "list_all ignored_line (py_split newline (join_lines ?ls))"
    using quiet by (simp only: split)
  from analyze_classify_total [OF paths scopes] quiet'
  have r: "(\<exists>t s subj. classify ?a [] [] = Inr (t, s, subj)) \<and>
           classify ?a [] [] = Inr (''fix'', [], ''fix: fix issue'')"
    by blast
  have no_paths: "affected_paths ?a = {}" by (simp add: init initial_analysis_def)
  have no_added: "lines_added ?a = 0" by (simp add: init initial_analysis_def)
  from r quiet no_paths no_added show ?thesis by blast
qed

text \<open>
  Claim C6. For every analysis on which rules 1 to 5 of the cascade do not match (not
  all test files, not all doc files, no config file together with a listed extension,
  not new files without deleted ones, not deleted files without new ones), the type is
  \<open>feat\<close> when \<open>lines_added > 2 * lines_deleted\<close>, \<open>refactor\<close> when
  \<open>lines_deleted > 2 * lines_added\<close>, and \<open>fix\<close> otherwise; the classifier returns
  that type.
\<close>

theorem line_count_rules:
  assumes "\<not> (0 < test_files a \<and> test_files a = card (affected_paths a))"
    and "\<not> (0 < doc_files a \<and> doc_files a = card (affected_paths a))"
    and "\<not> (0 < config_files a \<and>
             (\<exists>ext \<in> modified_extensions a.
                ext \<in> set [''.json'', ''.yml'', ''.yaml'', ''.toml'', ''.ini'']))"
    and "\<not> (has_new_files a \<and> \<not> has_modified_files a \<and> \<not> has_deleted_files a)"
    and "\<not> (has_deleted_files a \<and> \<not> has_new_files a \<and> \<not> has_modified_files a)"
    and "iteration_order (affected_paths a) ps"
    and "iteration_order (set (collect_scopes ps [])) cs"
  shows "(2 * lines_deleted a < lines_added a \<longrightarrow> determine_commit_type a = ''feat'') \<and>
         (2 * lines_added a < lines_deleted a \<longrightarrow> determine_commit_type a = ''refactor'') \<and>
         (\<not> 2 * lines_deleted a < lines_added a \<and> \<not> 2 * lines_added a < lines_deleted a
            \<longrightarrow> determine_commit_type a = ''fix'') \<and>
         (\<exists>scope subj. classify a ps cs = Inr (determine_commit_type a, scope, subj))"
proof -
  have cascade: "determine_commit_type a =
      (if lines_deleted a * 2 < lines_added a then ''feat''
       else if lines_added a * 2 < lines_deleted a then ''refactor'' else ''fix'')"
    by (subst determine_commit_type_def) (simp only: assms(1-5) if_False)
  obtain s where "determine_scope a ps cs = Inr s"
    using determine_scope_total [OF assms(7)] by blast
  then have "\<exists>scope subj. classify a ps cs = Inr (determine_commit_type a, scope, subj)"
    by (simp add: classify_def Let_def)
  with cascade show ?thesis by (simp add: mult.commute)
qed

theorem line_count_rules_witness:
  "determine_commit_type (initial_analysis\<lparr>lines_added := 10, lines_deleted := 2\<rparr>) = ''feat'' \<and>
   determine_commit_type (initial_analysis\<lparr>lines_added := 2, lines_deleted := 10\<rparr>)
     = ''refactor'' \<and>
   determine_commit_type (initial_analysis\<lparr>lines_added := 3, lines_deleted := 2\<rparr>) = ''fix'' \<and>
   classify (initial_analysis\<lparr>lines_added := 10, lines_deleted := 2\<rparr>) [] []
     = Inr (''feat'', [], ''feat: implement new feature'')"
proof -
  have orders: "iteration_order (affected_paths (initial_analysis\<lparr>lines_added := m,
        lines_deleted := n\<rparr>)) []" "iteration_order (set (collect_scopes [] [])) ([] :: string list)"
    for m n
    by (simp_all add: iteration_order_def initial_analysis_def)
  have feat: "determine_commit_type (initial_analysis\<lparr>lines_added := 10, lines_deleted := 2\<rparr>)
      = ''feat''"
    using line_count_rules [of "initial_analysis\<lparr>lines_added := 10, lines_deleted := 2\<rparr>",
        OF _ _ _ _ _ orders]
    by (simp add: initial_analysis_def)
  have refactor: "determine_commit_type (initial_analysis\<lparr>lines_added := 2, lines_deleted := 10\<rparr>)
      = ''refactor''"
    using line_count_rules [of "initial_analysis\<lparr>lines_added := 2, lines_deleted := 10\<rparr>",
        OF _ _ _ _ _ orders]
    by (simp add: initial_analysis_def)
  have fallback: "determine_commit_type (initial_analysis\<lparr>lines_added := 3, lines_deleted := 2\<rparr>)
      = ''fix''"
    using line_count_rules [of "initial_analysis\<lparr>lines_added := 3, lines_deleted := 2\<rparr>",
        OF _ _ _ _ _ orders]
    by (simp add: initial_analysis_def)
  have scope: "determine_scope (initial_analysis\<lparr>lines_added := 10, lines_deleted := 2\<rparr>) [] []
      = Inr []"
    by (simp add: determine_scope_def initial_analysis_def)
  have old: "\<not> has_new_files (initial_analysis\<lparr>lines_added := 10, lines_deleted := 2\<rparr>)"
    by (simp add: initial_analysis_def)
  have "classify (initial_analysis\<lparr>lines_added := 10, lines_deleted := 2\<rparr>) [] []
     = Inr (''feat'', [], ''feat: implement new feature'')"
    by (simp add: classify_def Let_def feat scope old generate_subject_def
        subject_description_def)
  with feat refactor fallback show ?thesis by (intro conjI)
qed

text \<open>
  Claim C9. For every analysis, the type is one of \<open>test\<close>, \<open>docs\<close>, \<open>chore\<close>,
  \<open>feat\<close>, \<open>refactor\<close> and \<open>fix\<close>, never \<open>style\<close>; so the description of the subject
  built from that type is neither \<open>update code style\<close> nor \<open>update code\<close>, and the
  subject does not end in either text, whatever the scope.
\<close>

theorem style_and_fallback_unreachable:
  "determine_commit_type a \<in> {''test'', ''docs'', ''chore'', ''feat'', ''refactor'', ''fix''} \<and>
   determine_commit_type a \<noteq> ''style'' \<and>
   subject_description (determine_commit_type a) a \<notin> {''update code style'', ''update code''} \<and>
   \<not> suffix ''update code style'' (generate_subject (determine_commit_type a) scope a) \<and>
   \<not> suffix ''update code'' (generate_subject (determine_commit_type a) scope a)"
proof -
  let ?t = "determine_commit_type a"
  have type: "?t \<in> {''test'', ''docs'', ''chore'', ''feat'', ''refactor'', ''fix''}"
    by (rule determine_commit_type_cases)
  then have desc: "subject_description ?t a \<in>
      {''add new functionality'', ''implement new feature'', ''fix issue'',
       ''update documentation'', ''add tests'', ''refactor code'', ''update configuration''}"
    by (auto simp: subject_description_def)
  have no_style: "?t \<noteq> ''style''"
    using type by auto
  have no_text: "subject_description ?t a \<notin> {''update code style'', ''update code''}"
    using desc by auto
  obtain pre where subj: "generate_subject ?t scope a = pre @ '': '' @ subject_description ?t a"
    by (simp add: generate_subject_def Let_def)
  have endings: "\<not> suffix ''update code style'' (pre @ '': '' @ d) \<and>
        \<not> suffix ''update code'' (pre @ '': '' @ d)"
    if "d \<in> {''add new functionality'', ''implement new feature'', ''fix issue'',
       ''update documentation'', ''add tests'', ''refactor code'', ''update configuration''}"
    for d
    using that by (auto simp: suffix_to_prefix)
  from endings [OF desc]
  have "\<not> suffix ''update code style'' (generate_subject ?t scope a)"
    and "\<not> suffix ''update code'' (generate_subject ?t scope a)"
    unfolding subj by blast+
  with type no_style no_text show ?thesis by (intro conjI)
qed

text \<open>
  Claim C10. For every analysis whose affected paths hold no directory separator, the
  classifier returns the empty scope: a top-level file is no scope candidate, reserved
  name or not.
\<close>

theorem top_level_files_have_no_scope:
  assumes "iteration_order (affected_paths a) ps"
    and "\<forall>p \<in> affected_paths a. CHR ''/'' \<notin> set p"
  shows "determine_scope a ps cs = Inr [] \<and>
         classify a ps cs =
           Inr (determine_commit_type a, [], generate_subject (determine_commit_type a) [] a)"
proof -
  from assms have "\<forall>p \<in> set ps. CHR ''/'' \<notin> set p"
    by (simp add: iteration_order_def)
  then have "collect_scopes ps [] = []" by (rule collect_scopes_single_segments)
  then have "determine_scope a ps cs = Inr []" by (simp add: determine_scope_def)
  then show ?thesis by (simp add: classify_def Let_def)
qed

theorem top_level_files_have_no_scope_witness:
  "affected_paths (analyze_changes ''diff --git a/Makefile b/Makefile'') = {''Makefile''} \<and>
   CHR ''/'' \<notin> set ''Makefile'' \<and>
   determine_scope (analyze_changes ''diff --git a/Makefile b/Makefile'') [''Makefile''] [] = Inr []"
proof -
  let ?a = "analyze_changes ''diff --git a/Makefile b/Makefile''"
  have paths: "affected_paths ?a = {''Makefile''}"
    by (simp add: analysis_eval)
  then have order: "iteration_order (affected_paths ?a) [''Makefile'']"
    by (simp add: iteration_order_def)
  have single: "\<forall>p \<in> affected_paths ?a. CHR ''/'' \<notin> set p"
    by (simp add: paths)
  from top_level_files_have_no_scope [OF order single, of "[]"] paths
  show ?thesis by simp
qed

subsection \<open>The documentation scenario\<close>

lemma scan_lines_added:
  assumes "startswith l ''+''" and "\<not> startswith l ''+++''"
  shows "scan_lines (replicate n l) a = a\<lparr>lines_added := lines_added a + n\<rparr>"
proof (induction n arbitrary: a)
  case 0
  then show ?case by simp
next
  case (Suc n)
  from assms(1) obtain rest where l: "l = CHR ''+'' # rest"
    by (cases l) (auto simp: startswith_def)
  have "process_line l a = a\<lparr>lines_added := lines_added a + 1\<rparr>"
    using assms by (simp add: process_line_def) (simp add: l startswith_def)
  then show ?case by (simp add: Suc.IH)
qed

lemma guide_diff_lines:
  "py_split newline guide_diff =
     [''diff --git a/docs/guide.md b/docs/guide.md'', ''new file mode 100644'',
      ''index 0000000..3b18e51'', ''--- /dev/null'', ''+++ b/docs/guide.md'',
      ''@@ -0,0 +1,100 @@''] @ replicate 100 ''+A line of the guide.''"
  unfolding guide_diff_def by (rule py_split_join) (auto simp: newline_def)

lemma analyze_guide_diff:
  "analyze_changes guide_diff =
     \<lparr>has_new_files = True, has_deleted_files = False, has_modified_files = False,
      has_renamed_files = False, modified_extensions = {''.md''},
      affected_paths = {''docs/guide.md''}, lines_added = 100, lines_deleted = 0,
      test_files = 0, config_files = 0, doc_files = 1\<rparr>"
proof -
  have head: "scan_lines
     [''diff --git a/docs/guide.md b/docs/guide.md'', ''new file mode 100644'',
      ''index 0000000..3b18e51'', ''--- /dev/null'', ''+++ b/docs/guide.md'',
      ''@@ -0,0 +1,100 @@''] initial_analysis =
     \<lparr>has_new_files = True, has_deleted_files = False, has_modified_files = False,
      has_renamed_files = False, modified_extensions = {''.md''},
      affected_paths = {''docs/guide.md''}, lines_added = 0, lines_deleted = 0,
      test_files = 0, config_files = 0, doc_files = 1\<rparr>"
    by (simp add: analysis_eval)
  have body: "startswith ''+A line of the guide.'' ''+''"
    "\<not> startswith ''+A line of the guide.'' ''+++''"
    by (simp_all add: startswith_def)
  show ?thesis
    unfolding analyze_changes_def guide_diff_lines scan_lines_append head
    by (simp add: scan_lines_added [OF body])
qed

text \<open>
  Claim C8. For the diff of one new file \<open>docs/guide.md\<close> with 100 added lines, the
  analysis has \<open>affected_paths = {docs/guide.md}\<close>, \<open>doc_files = 1\<close> and
  \<open>has_new_files\<close>; the classifier returns the type \<open>docs\<close>, the empty scope and the
  subject \<open>docs: update documentation\<close>. The affected paths have one order of
  iteration and there is no scope candidate, so the orders are the ones given.
\<close>

theorem guide_scenario:
  "affected_paths (analyze_changes guide_diff) = {''docs/guide.md''} \<and>
   doc_files (analyze_changes guide_diff) = 1 \<and>
   has_new_files (analyze_changes guide_diff) \<and>
   lines_added (analyze_changes guide_diff) = 100 \<and>
   iteration_order (affected_paths (analyze_changes guide_diff)) ps = (ps = [''docs/guide.md'']) \<and>
   iteration_order (set (collect_scopes [''docs/guide.md''] [])) cs = (cs = []) \<and>
   determine_commit_type (analyze_changes guide_diff) = ''docs'' \<and>
   determine_scope (analyze_changes guide_diff) [''docs/guide.md''] [] = Inr [] \<and>
   classify (analyze_changes guide_diff) [''docs/guide.md''] []
     = Inr (''docs'', [], ''docs: update documentation'')"
proof -
  have parts: "path_parts ''docs/guide.md'' = [''docs'', ''guide.md'']"
    by (simp add: path_parts_def path_tail_def splitroot_def)
  have scopes: "collect_scopes [''docs/guide.md''] [] = []"
    by (simp add: parts reserved_scopes_def lower_def lower_char_def char_of_def bit_Suc_0_iff)
  have order: "iteration_order {''docs/guide.md''} ps = (ps = [''docs/guide.md''])"
  proof
    assume "iteration_order {''docs/guide.md''} ps"
    then have "distinct ps" and "set ps = {''docs/guide.md''}"
      by (simp_all add: iteration_order_def)
    then have "length ps = 1" using distinct_card [of ps] by simp
    with \<open>set ps = {''docs/guide.md''}\<close> show "ps = [''docs/guide.md'']"
      by (cases ps) auto
  next
    assume "ps = [''docs/guide.md'']"
    then show "iteration_order {''docs/guide.md''} ps" by (simp add: iteration_order_def)
  qed
  have type: "determine_commit_type (analyze_changes guide_diff) = ''docs''"
    by (simp add: analyze_guide_diff determine_commit_type_def)
  have scope: "determine_scope (analyze_changes guide_diff) [''docs/guide.md''] [] = Inr []"
    unfolding determine_scope_def scopes by simp
  have result: "classify (analyze_changes guide_diff) [''docs/guide.md''] []
     = Inr (''docs'', [], ''docs: update documentation'')"
    by (simp add: classify_def Let_def type scope generate_subject_def subject_description_def)
  have paths: "affected_paths (analyze_changes guide_diff) = {''docs/guide.md''}"
    and docs: "doc_files (analyze_changes guide_diff) = 1"
    and new: "has_new_files (analyze_changes guide_diff)"
    and added: "lines_added (analyze_changes guide_diff) = 100"
    by (simp_all add: analyze_guide_diff)
  have order': "iteration_order (affected_paths (analyze_changes guide_diff)) ps
      = (ps = [''docs/guide.md''])"
    unfolding paths by (rule order)
  have no_scopes: "iteration_order (set (collect_scopes [''docs/guide.md''] [])) cs = (cs = [])"
    unfolding scopes by (auto simp: iteration_order_def)
  from paths docs new added order' no_scopes type scope result show ?thesis
    by (intro conjI)
qed

subsection \<open>The scope of nested paths\<close>

text \<open>
  Claim C3, as stated: every affected path contributes its first segment as a scope
  candidate. The diff touching only the top-level file \<open>setup.py\<close> has the one
  candidate \<open>setup.py\<close> in the specification's wording, and \<open>determine_scope\<close>
  returns the empty scope.
\<close>

theorem top_level_file_is_no_candidate:
  "affected_paths (analyze_changes ''diff --git a/setup.py b/setup.py'') = {''setup.py''} \<and>
   spec_scope_candidates [''setup.py''] = [''setup.py''] \<and>
   collect_scopes [''setup.py''] [] = [] \<and>
   determine_scope (analyze_changes ''diff --git a/setup.py b/setup.py'') [''setup.py''] []
     = Inr []"
  by (simp add: analysis_eval spec_scope_candidates_def reserved_scopes_def determine_scope_def
      py_split_no_sep)

text \<open>
  Claim C3, amended. For every analysis and every order of iteration, the candidates
  are taken from the affected paths that have more than one component: the first
  component, lowercased, unless it is one of \<open>src\<close>, \<open>lib\<close>, \<open>app\<close>, \<open>test\<close>,
  \<open>tests\<close>, \<open>docs\<close>. The scope is empty when there is no candidate, the candidate when
  there is one, and otherwise a candidate that no other candidate outnumbers. The diff
  touching only \<open>frontend/app.js\<close> has scope \<open>frontend\<close>, and the one touching only
  \<open>src/app.js\<close> has the empty scope.
\<close>

theorem scope_of_nested_paths:
  assumes "iteration_order (affected_paths a) ps"
    and "iteration_order (set (collect_scopes ps [])) cs"
    and "candidates =
           [lower (hd (path_parts p)). p \<leftarrow> ps, 1 < length (path_parts p),
              lower (hd (path_parts p)) \<notin> {''src'', ''lib'', ''app'', ''test'', ''tests'', ''docs''}]"
  shows "(\<exists>r. determine_scope a ps cs = Inr r \<and>
              (candidates = [] \<longrightarrow> r = []) \<and>
              (\<forall>c. candidates = [c] \<longrightarrow> r = c) \<and>
              (1 < length candidates \<longrightarrow>
                 r \<in> set candidates \<and>
                 (\<forall>c \<in> set candidates. count_list candidates c \<le> count_list candidates r))) \<and>
         determine_scope (analyze_changes ''diff --git a/frontend/app.js b/frontend/app.js'')
           [''frontend/app.js''] [''frontend''] = Inr ''frontend'' \<and>
         determine_scope (analyze_changes ''diff --git a/src/app.js b/src/app.js'')
           [''src/app.js''] [] = Inr []"
proof -
  have reserved: "set reserved_scopes = {''src'', ''lib'', ''app'', ''test'', ''tests'', ''docs''}"
    by (simp add: reserved_scopes_def)
  have scopes: "collect_scopes ps [] = candidates"
    unfolding collect_scopes_eq assms(3) reserved by simp
  have general: "\<exists>r. determine_scope a ps cs = Inr r \<and>
              (candidates = [] \<longrightarrow> r = []) \<and>
              (\<forall>c. candidates = [c] \<longrightarrow> r = c) \<and>
              (1 < length candidates \<longrightarrow>
                 r \<in> set candidates \<and>
                 (\<forall>c \<in> set candidates. count_list candidates c \<le> count_list candidates r))"
  proof (cases "affected_paths a = {}")
    case True
    with assms(1) have "ps = []" by (simp add: iteration_order_def)
    then have "candidates = []" by (simp add: assms(3))
    with True show ?thesis by (simp add: determine_scope_def)
  next
    case False
    note nonempty = this
    show ?thesis
    proof (cases candidates)
      case Nil
      with nonempty show ?thesis by (simp add: determine_scope_def scopes)
    next
      case (Cons c rest)
      show ?thesis
      proof (cases rest)
        case Nil
        with Cons nonempty show ?thesis by (simp add: determine_scope_def scopes)
      next
        case several: (Cons c' rest')
        from assms(2) Cons have "cs \<noteq> []" and order: "set cs = set candidates"
          by (auto simp: iteration_order_def scopes)
        then obtain m where m: "py_max (count_list candidates) cs = Inr m" "m \<in> set cs"
          "\<forall>y \<in> set cs. count_list candidates y \<le> count_list candidates m"
          using py_max_greatest [of cs "count_list candidates"] by blast
        have "determine_scope a ps cs = Inr m"
          using nonempty Cons several m(1) by (simp add: determine_scope_def scopes)
        with m(2,3) order Cons several show ?thesis by simp
      qed
    qed
  qed
  have frontend: "determine_scope
      (analyze_changes ''diff --git a/frontend/app.js b/frontend/app.js'')
      [''frontend/app.js''] [''frontend''] = Inr ''frontend''"
    by (simp add: analysis_eval reserved_scopes_def determine_scope_def)
  have src: "determine_scope (analyze_changes ''diff --git a/src/app.js b/src/app.js'')
      [''src/app.js''] [] = Inr []"
    by (simp add: analysis_eval reserved_scopes_def determine_scope_def)
  from general frontend src show ?thesis by (intro conjI)
qed

theorem scope_of_nested_paths_witness:
  "affected_paths
     (analyze_changes
        (join_lines [''diff --git a/api/a.py b/api/a.py'', ''diff --git a/web/c.js b/web/c.js'',
           ''diff --git a/API/b.py b/API/b.py'']))
     = {''web/c.js'', ''api/a.py'', ''API/b.py''} \<and>
   collect_scopes [''web/c.js'', ''api/a.py'', ''API/b.py''] [] = [''web'', ''api'', ''api''] \<and>
   determine_scope
     (analyze_changes
        (join_lines [''diff --git a/api/a.py b/api/a.py'', ''diff --git a/web/c.js b/web/c.js'',
           ''diff --git a/API/b.py b/API/b.py'']))
     [''web/c.js'', ''api/a.py'', ''API/b.py''] [''web'', ''api''] = Inr ''api''"
proof -
  let ?a = "analyze_changes
        (join_lines [''diff --git a/api/a.py b/api/a.py'', ''diff --git a/web/c.js b/web/c.js'',
           ''diff --git a/API/b.py b/API/b.py''])"
  let ?ps = "[''web/c.js'', ''api/a.py'', ''API/b.py'']"
  have paths: "affected_paths ?a = {''web/c.js'', ''api/a.py'', ''API/b.py''}"
    by (simp add: analysis_eval insert_commute)
  have scopes: "collect_scopes ?ps [] = [''web'', ''api'', ''api'']"
    by (simp add: analysis_eval reserved_scopes_def)
  have candidates: "[''web'', ''api'', ''api''] =
      [lower (hd (path_parts p)). p \<leftarrow> ?ps, 1 < length (path_parts p),
         lower (hd (path_parts p)) \<notin> {''src'', ''lib'', ''app'', ''test'', ''tests'', ''docs''}]"
    by (simp add: analysis_eval)
  have order1: "iteration_order (affected_paths ?a) ?ps"
    unfolding paths by (simp add: iteration_order_def)
  have order2: "iteration_order (set (collect_scopes ?ps [])) [''web'', ''api'']"
    unfolding scopes by (auto simp: iteration_order_def)
  from scope_of_nested_paths [OF order1 order2 candidates]
  obtain r where r: "determine_scope ?a ?ps [''web'', ''api''] = Inr r"
    and "r \<in> set [''web'', ''api'', ''api'']"
    and "\<forall>c \<in> set [''web'', ''api'', ''api''].
           count_list [''web'', ''api'', ''api''] c \<le> count_list [''web'', ''api'', ''api''] r"
    by auto
  then have "r = ''api''" by auto
  with r paths scopes show ?thesis by (intro conjI) simp_all
qed

subsection \<open>Recorded extensions\<close>

lemma py_rfind_absent: "c \<notin> set s \<Longrightarrow> py_rfind c s = - 1"
  by (induction s) (auto simp: Let_def)

lemma py_rfind_last:
  "c \<notin> set ext \<Longrightarrow> py_rfind c (stem @ c # ext) = int (length stem)"
  by (induction stem) (auto simp: Let_def py_rfind_absent)

lemma path_suffix_of_name:
  assumes "path_name p = stem @ CHR ''.'' # ext" and "CHR ''.'' \<notin> set ext"
  shows "path_suffix p = (if stem \<noteq> [] \<and> ext \<noteq> [] then CHR ''.'' # ext else [])"
proof -
  have "py_rfind CHR ''.'' (path_name p) = int (length stem)"
    unfolding assms(1) using assms(2) by (rule py_rfind_last)
  then show ?thesis by (auto simp: path_suffix_def Let_def assms(1))
qed

lemma path_suffix_no_dot: "CHR ''.'' \<notin> set (path_name p) \<Longrightarrow> path_suffix p = []"
  by (simp add: path_suffix_def Let_def py_rfind_absent)

lemma record_file_extensions:
  "modified_extensions (record_file p a) =
     (if path_suffix p \<noteq> [] then insert (lower (path_suffix p)) (modified_extensions a)
      else modified_extensions a)"
  by (simp add: record_file_def Let_def lower_def)

lemma process_line_extensions_mono:
  "modified_extensions a \<subseteq> modified_extensions (process_line l a)"
proof (cases "header_new_path l")
  case None
  then show ?thesis by (simp add: process_line_no_header)
next
  case (Some p)
  then show ?thesis by (auto simp: process_line_header record_file_extensions)
qed

lemma scan_lines_extensions_mono:
  "modified_extensions a \<subseteq> modified_extensions (scan_lines ls a)"
proof (induction ls arbitrary: a)
  case Nil
  then show ?case by simp
next
  case (Cons l ls)
  have "modified_extensions a \<subseteq> modified_extensions (process_line l a)"
    by (rule process_line_extensions_mono)
  also have "\<dots> \<subseteq> modified_extensions (scan_lines ls (process_line l a))"
    by (rule Cons.IH)
  finally show ?case by simp
qed

lemma scan_lines_extension_kept:
  assumes "l \<in> set ls" and "\<And>b. e \<in> modified_extensions (process_line l b)"
  shows "e \<in> modified_extensions (scan_lines ls a)"
  using assms(1)
proof (induction ls arbitrary: a)
  case Nil
  then show ?case by simp
next
  case (Cons x xs)
  show ?case
  proof (cases "l = x")
    case True
    have "e \<in> modified_extensions (process_line x a)" using assms(2) True by simp
    then show ?thesis using scan_lines_extensions_mono by auto
  next
    case False
    with Cons.prems have "l \<in> set xs" by simp
    then show ?thesis by (simp add: Cons.IH)
  qed
qed

text \<open>
  Claim C7, as stated: every matched header line adds the text of the last path
  component from its last \<open>.\<close> to the end. For the header of \<open>.env\<close> that text is
  \<open>.env\<close>, and the analysis records no extension.
\<close>

theorem dotfile_has_no_extension:
  "header_new_path ''diff --git a/.env b/.env'' = Some ''.env'' \<and>
   spec_extension ''.env'' = ''.env'' \<and>
   path_suffix ''.env'' = [] \<and>
   modified_extensions (analyze_changes ''diff --git a/.env b/.env'') = {}"
  by (simp add: analysis_eval header_new_path_def spec_extension_def)

text \<open>
  Claim C7, amended. For every line that matches the file-pair header pattern, with
  the last component of the new path split at its last \<open>.\<close> into \<open>stem\<close>, the dot and
  \<open>ext\<close>: the line adds the lowercased \<open>.ext\<close> to \<open>modified_extensions\<close> when \<open>stem\<close>
  and \<open>ext\<close> are both non-empty, and adds nothing when the dot is the first character
  of the component (such as \<open>.env\<close>) or the component has no dot. An extension added
  by a line of the diff is in the result of the analysis.
\<close>

theorem extension_of_new_path:
  assumes "startswith line ''diff --git''"
    and "re_search_header line = Some (old_path, new_path)"
  shows "(\<forall>stem ext. path_name new_path = stem @ CHR ''.'' # ext \<and> CHR ''.'' \<notin> set ext \<and>
            stem \<noteq> [] \<and> ext \<noteq> [] \<longrightarrow>
            modified_extensions (process_line line a) =
              insert (lower (CHR ''.'' # ext)) (modified_extensions a)) \<and>
         (\<forall>ext. path_name new_path = CHR ''.'' # ext \<and> CHR ''.'' \<notin> set ext \<longrightarrow>
            modified_extensions (process_line line a) = modified_extensions a) \<and>
         (CHR ''.'' \<notin> set (path_name new_path) \<longrightarrow>
            modified_extensions (process_line line a) = modified_extensions a) \<and>
         (line \<in> set (py_split newline diff) \<longrightarrow>
            (\<forall>stem ext. path_name new_path = stem @ CHR ''.'' # ext \<and> CHR ''.'' \<notin> set ext \<and>
               stem \<noteq> [] \<and> ext \<noteq> [] \<longrightarrow>
               lower (CHR ''.'' # ext) \<in> modified_extensions (analyze_changes diff)))"
proof -
  have header: "header_new_path line = Some new_path"
    using assms by (simp add: header_new_path_def)
  have step: "modified_extensions (process_line line b) =
      (if path_suffix new_path \<noteq> [] then insert (lower (path_suffix new_path)) (modified_extensions b)
       else modified_extensions b)" for b
    by (simp only: process_line_header [OF header] record_file_extensions)
  have added: "modified_extensions (process_line line a) =
      insert (lower (CHR ''.'' # ext)) (modified_extensions a)"
    if "path_name new_path = stem @ CHR ''.'' # ext" and "CHR ''.'' \<notin> set ext"
      and "stem \<noteq> []" and "ext \<noteq> []" for stem ext
    unfolding step path_suffix_of_name [OF that(1,2)] using that(3,4) by simp
  have dotfile: "modified_extensions (process_line line a) = modified_extensions a"
    if "path_name new_path = CHR ''.'' # ext" and "CHR ''.'' \<notin> set ext" for ext
  proof -
    from that(1) have "path_name new_path = [] @ CHR ''.'' # ext" by simp
    from path_suffix_of_name [OF this that(2)] show ?thesis unfolding step by simp
  qed
  have no_dot: "modified_extensions (process_line line a) = modified_extensions a"
    if "CHR ''.'' \<notin> set (path_name new_path)"
    unfolding step path_suffix_no_dot [OF that] by simp
  have final: "lower (CHR ''.'' # ext) \<in> modified_extensions (analyze_changes diff)"
    if "line \<in> set (py_split newline diff)"
      and "path_name new_path = stem @ CHR ''.'' # ext" and "CHR ''.'' \<notin> set ext"
      and "stem \<noteq> []" and "ext \<noteq> []" for stem ext
  proof -
    have "path_suffix new_path = CHR ''.'' # ext"
      using path_suffix_of_name [OF that(2,3)] that(4,5) by simp
    then have "lower (CHR ''.'' # ext) \<in> modified_extensions (process_line line b)" for b
      by (simp add: step)
    with that(1) show ?thesis
      unfolding analyze_changes_def by (rule scan_lines_extension_kept)
  qed
  have c1: "\<forall>stem ext. path_name new_path = stem @ CHR ''.'' # ext \<and> CHR ''.'' \<notin> set ext \<and>
            stem \<noteq> [] \<and> ext \<noteq> [] \<longrightarrow>
            modified_extensions (process_line line a) =
              insert (lower (CHR ''.'' # ext)) (modified_extensions a)"
    by (intro allI impI) (elim conjE, rule added)
  have c2: "\<forall>ext. path_name new_path = CHR ''.'' # ext \<and> CHR ''.'' \<notin> set ext \<longrightarrow>
            modified_extensions (process_line line a) = modified_extensions a"
    by (intro allI impI) (elim conjE, rule dotfile)
  have c3: "CHR ''.'' \<notin> set (path_name new_path) \<longrightarrow>
            modified_extensions (process_line line a) = modified_extensions a"
    by (intro impI) (rule no_dot)
  have c4: "line \<in> set (py_split newline diff) \<longrightarrow>
            (\<forall>stem ext. path_name new_path = stem @ CHR ''.'' # ext \<and> CHR ''.'' \<notin> set ext \<and>
               stem \<noteq> [] \<and> ext \<noteq> [] \<longrightarrow>
               lower (CHR ''.'' # ext) \<in> modified_extensions (analyze_changes diff))"
    by (intro allI impI) (elim conjE, rule final)
  from c1 c2 c3 c4 show ?thesis by (intro conjI)
qed

theorem extension_of_new_path_witness:
  "startswith ''diff --git a/src/Main.PY b/src/Main.PY'' ''diff --git'' \<and>
   re_search_header ''diff --git a/src/Main.PY b/src/Main.PY''
     = Some (''src/Main.PY'', ''src/Main.PY'') \<and>
   path_name ''src/Main.PY'' = ''Main'' @ CHR ''.'' # ''PY'' \<and>
   ''.py'' \<in> modified_extensions
     (analyze_changes
        (join_lines [''diff --git a/src/Main.PY b/src/Main.PY'', ''new file mode 100644'']))"
proof -
  let ?line = "''diff --git a/src/Main.PY b/src/Main.PY''"
  let ?diff = "join_lines [?line, ''new file mode 100644'']"
  have starts: "startswith ?line ''diff --git''" by (simp add: startswith_def)
  have matches: "re_search_header ?line = Some (''src/Main.PY'', ''src/Main.PY'')"
    by (simp add: match_header_at_def startswith_def)
  have name: "path_name ''src/Main.PY'' = ''Main'' @ CHR ''.'' # ''PY''"
    by (simp add: path_name_def path_tail_def splitroot_def)
  have "py_split newline ?diff = [?line, ''new file mode 100644'']"
    by (rule py_split_join) (simp_all add: newline_def)
  then have line: "?line \<in> set (py_split newline ?diff)" by simp
  from extension_of_new_path [OF starts matches, of initial_analysis ?diff] line
  have "\<forall>stem ext. path_name ''src/Main.PY'' = stem @ CHR ''.'' # ext \<and> CHR ''.'' \<notin> set ext \<and>
          stem \<noteq> [] \<and> ext \<noteq> [] \<longrightarrow>
          lower (CHR ''.'' # ext) \<in> modified_extensions (analyze_changes ?diff)"
    by blast
  from this [rule_format, of "''Main''" "''PY''"] name
  have "lower (CHR ''.'' # ''PY'') \<in> modified_extensions (analyze_changes ?diff)"
    by simp
  then have "''.py'' \<in> modified_extensions (analyze_changes ?diff)"
    by (simp add: lower_def lower_char_def char_of_def bit_Suc_0_iff)
  with starts matches name show ?thesis by (intro conjI)
qed

end
